theory Spec2Isabelle
  imports Main
begin

section \<open>Go library functions the program calls\<close>

text \<open>
  A Go string is a sequence of bytes; it is modelled as \<^typ>\<open>string\<close> (a list of 8-bit
  characters). The functions of this section are not code of the repository: they model
  the documented behaviour of the Go 1.21 standard library (the Dockerfile builds with
  golang:1.21) as far as \<^verbatim>\<open>main.go\<close> depends on it.
\<close>

subsection \<open>strings.TrimSpace\<close>

text \<open>
  \<^verbatim>\<open>strings.TrimSpace\<close> removes leading and trailing white space as defined by Unicode
  (\<^verbatim>\<open>unicode.IsSpace\<close>). Decoding is UTF-8; a byte sequence that is not the shortest
  encoding of a rune decodes to U+FFFD, which is not white space. So a rune at the front
  (or at the back) of the string is white space exactly when the string starts (or ends)
  with one of the byte sequences below: tab, line feed, vertical tab, form feed,
  carriage return, space, U+0085, U+00A0, U+1680, U+2000 to U+200A, U+2028, U+2029,
  U+202F, U+205F, U+3000.
\<close>

definition spaceRunes :: "string list" where
  "spaceRunes =
     [[CHR 0x09], [CHR 0x0A], [CHR 0x0B], [CHR 0x0C], [CHR 0x0D], [CHR 0x20],
      [CHR 0xC2, CHR 0x85], [CHR 0xC2, CHR 0xA0],
      [CHR 0xE1, CHR 0x9A, CHR 0x80],
      [CHR 0xE2, CHR 0x80, CHR 0x80], [CHR 0xE2, CHR 0x80, CHR 0x81],
      [CHR 0xE2, CHR 0x80, CHR 0x82], [CHR 0xE2, CHR 0x80, CHR 0x83],
      [CHR 0xE2, CHR 0x80, CHR 0x84], [CHR 0xE2, CHR 0x80, CHR 0x85],
      [CHR 0xE2, CHR 0x80, CHR 0x86], [CHR 0xE2, CHR 0x80, CHR 0x87],
      [CHR 0xE2, CHR 0x80, CHR 0x88], [CHR 0xE2, CHR 0x80, CHR 0x89],
      [CHR 0xE2, CHR 0x80, CHR 0x8A],
      [CHR 0xE2, CHR 0x80, CHR 0xA8], [CHR 0xE2, CHR 0x80, CHR 0xA9],
      [CHR 0xE2, CHR 0x80, CHR 0xAF],
      [CHR 0xE2, CHR 0x81, CHR 0x9F],
      [CHR 0xE3, CHR 0x80, CHR 0x80]]"

text \<open>Drop, from the front, every occurrence of one of the sequences \<open>qs\<close>.\<close>

function stripLeading :: "string list \<Rightarrow> string \<Rightarrow> string" where
  "stripLeading qs s =
     (case find (\<lambda>q. q \<noteq> [] \<and> take (length q) s = q) qs of
        None \<Rightarrow> s
      | Some q \<Rightarrow> stripLeading qs (drop (length q) s))"
  by pat_completeness auto
termination
proof (relation "measure (\<lambda>(qs, s). length s)")
  show "wf (measure (\<lambda>(qs, s). length s))" by simp
next
  fix qs :: "string list" and s q :: string
  assume "find (\<lambda>q. q \<noteq> [] \<and> take (length q) s = q) qs = Some q"
  then have q: "q \<noteq> []" "take (length q) s = q"
    by (auto simp: find_Some_iff)
  have "length (take (length q) s) = length q"
    using q(2) by simp
  then have "length q \<le> length s"
    by simp
  with q(1) have "length (drop (length q) s) < length s"
    by (cases q) auto
  then show "((qs, drop (length q) s), (qs, s)) \<in> measure (\<lambda>(qs, s). length s)"
    by simp
qed

definition trimLeftSpace :: "string \<Rightarrow> string" where
  "trimLeftSpace s = stripLeading spaceRunes s"

definition trimRightSpace :: "string \<Rightarrow> string" where
  "trimRightSpace s = rev (stripLeading (map rev spaceRunes) (rev s))"

definition trimSpace :: "string \<Rightarrow> string" where
  "trimSpace s = trimRightSpace (trimLeftSpace s)"

subsection \<open>net/http headers\<close>

text \<open>
  \<^verbatim>\<open>http.Header\<close> is a map from canonical keys to lists of values. \<^verbatim>\<open>Header.Get\<close>
  and \<^verbatim>\<open>Header.Set\<close> canonicalise the key (\<^verbatim>\<open>textproto.CanonicalMIMEHeaderKey\<close>):
  a key made of token bytes gets an upper-case first letter and an upper-case letter
  after each hyphen, every other letter in lower case; any other key is left as it is.
\<close>

type_synonym header = "string \<rightharpoonup> string list"

definition isLowerASCII :: "char \<Rightarrow> bool" where
  "isLowerASCII c = ((97::nat) \<le> of_char c \<and> of_char c \<le> (122::nat))"

definition isUpperASCII :: "char \<Rightarrow> bool" where
  "isUpperASCII c = ((65::nat) \<le> of_char c \<and> of_char c \<le> (90::nat))"

definition isDigitASCII :: "char \<Rightarrow> bool" where
  "isDigitASCII c = ((48::nat) \<le> of_char c \<and> of_char c \<le> (57::nat))"

definition toUpperASCII :: "char \<Rightarrow> char" where
  "toUpperASCII c = (if isLowerASCII c then char_of (of_char c - (32::nat)) else c)"

definition toLowerASCII :: "char \<Rightarrow> char" where
  "toLowerASCII c = (if isUpperASCII c then char_of (of_char c + (32::nat)) else c)"

definition validHeaderFieldByte :: "char \<Rightarrow> bool" where
  "validHeaderFieldByte c =
     (isLowerASCII c \<or> isUpperASCII c \<or> isDigitASCII c \<or> c \<in> set ''!#$%&'*+-.^_`|~'')"

fun canonicalCase :: "bool \<Rightarrow> string \<Rightarrow> string" where
  "canonicalCase upper [] = []"
| "canonicalCase upper (c # cs) =
     (let c' = (if upper \<and> isLowerASCII c then toUpperASCII c
                else if \<not> upper \<and> isUpperASCII c then toLowerASCII c
                else c)
      in c' # canonicalCase (c' = CHR ''-'') cs)"

definition canonicalMIMEHeaderKey :: "string \<Rightarrow> string" where
  "canonicalMIMEHeaderKey s =
     (if list_all validHeaderFieldByte s then canonicalCase True s else s)"

definition header_Get :: "header \<Rightarrow> string \<Rightarrow> string" where
  "header_Get h key =
     (case h (canonicalMIMEHeaderKey key) of
        None \<Rightarrow> []
      | Some [] \<Rightarrow> []
      | Some (v # _) \<Rightarrow> v)"

definition header_Set :: "header \<Rightarrow> string \<Rightarrow> string \<Rightarrow> header" where
  "header_Set h key v = h(canonicalMIMEHeaderKey key \<mapsto> [v])"

subsection \<open>sync.Once and sync.WaitGroup\<close>

text \<open>
  A \<^verbatim>\<open>sync.Once\<close> is its flag: \<open>True\<close> once \<^verbatim>\<open>Do\<close> has run its function.
  \<^verbatim>\<open>Do\<close> holds the mutex of the \<^verbatim>\<open>Once\<close> while it tests the flag, runs the function and
  sets the flag, so concurrent calls of \<^verbatim>\<open>Do\<close> on one \<^verbatim>\<open>Once\<close> take effect one after
  the other. A \<^verbatim>\<open>sync.WaitGroup\<close> is its counter; \<^verbatim>\<open>Add\<close> adds the delta atomically and
  panics when the counter becomes negative, \<^verbatim>\<open>Done\<close> is \<^verbatim>\<open>Add(-1)\<close>, and \<^verbatim>\<open>Wait\<close>
  returns when the counter is zero.
\<close>

type_synonym waitGroup = int

definition wg_Add :: "waitGroup \<Rightarrow> int \<Rightarrow> waitGroup \<times> string option" where
  "wg_Add wg delta =
     (wg + delta,
      if wg + delta < 0 then Some ''sync: negative WaitGroup counter'' else None)"

definition wg_Done :: "waitGroup \<Rightarrow> waitGroup \<times> string option" where
  "wg_Done wg = wg_Add wg (- 1)"

section \<open>The verification handler\<close>

text \<open>
  \<^verbatim>\<open>log\<close> is the default \<^verbatim>\<open>slog\<close> logger; a log call is recorded as its level, its
  message and its attributes.
\<close>

datatype level = LevelInfo | LevelError

type_synonym log_entry = "level \<times> string \<times> (string \<times> string) list"

record request =
  Method :: string
  Path :: string
  Header :: header

text \<open>
  What the handler hands to its \<^verbatim>\<open>http.ResponseWriter\<close>: the status given to
  \<^verbatim>\<open>WriteHeader\<close>, the header map at that moment and the bytes given to \<^verbatim>\<open>Write\<close>
  (this is what \<^verbatim>\<open>httptest.ResponseRecorder\<close> records in the repository's test).
\<close>

record response =
  status :: nat
  wheader :: header
  body :: string

text \<open>
  The outcome of one call of the handler: the response, the log calls, the \<^verbatim>\<open>Once\<close> and
  the \<^verbatim>\<open>WaitGroup\<close> the closure captured as the call leaves them, and the panic message
  if the call panicked.
\<close>

record outcome =
  resp :: response
  logged :: "log_entry list"
  once_after :: bool
  wg_after :: waitGroup
  panicked :: "string option"

definition oktaVerificationHeader :: string where
  "oktaVerificationHeader = ''x-okta-verification-challenge''"

definition MethodGet :: string where
  "MethodGet = ''GET''"

definition StatusOK :: nat where
  "StatusOK = 200"

definition StatusBadRequest :: nat where
  "StatusBadRequest = 400"

text \<open>
  \<^verbatim>\<open>verificationHandler(wg)\<close> returns a closure over \<open>wg\<close> and a fresh \<^verbatim>\<open>Once\<close>; the
  closure reads the global \<open>exitWhenDone\<close>. The model takes the three as arguments, then
  the request, then \<open>werr\<close>: the error \<^verbatim>\<open>fmt.Fprintf(w, "%s", b)\<close> returns (\<open>None\<close> for
  \<^verbatim>\<open>nil\<close>), which is the writer's answer and not the handler's choice.
\<close>

definition verificationHandler ::
  "bool \<Rightarrow> bool \<Rightarrow> waitGroup \<Rightarrow> request \<Rightarrow> string option \<Rightarrow> outcome" where
  \<open>verificationHandler exitWhenDone once wg r werr =
     (if Method r \<noteq> MethodGet then
        \<lparr>resp = \<lparr>status = StatusBadRequest, wheader = Map.empty, body = []\<rparr>,
         logged = [(LevelError, ''invalid verification request received'',
                    [(''method'', Method r), (''path'', Path r)])],
         once_after = once, wg_after = wg, panicked = None\<rparr>
      else if trimSpace (header_Get (Header r) oktaVerificationHeader) = [] then
        \<lparr>resp = \<lparr>status = StatusBadRequest, wheader = Map.empty, body = []\<rparr>,
         logged = [(LevelError, ''verification header missing'',
                    [(''method'', Method r), (''path'', Path r)])],
         once_after = once, wg_after = wg, panicked = None\<rparr>
      else
        let b = ''{"verification" : "'' @ header_Get (Header r) oktaVerificationHeader @ ''"}'';
            w = \<lparr>status = StatusOK,
                 wheader = header_Set Map.empty ''Content-Type'' ''application/json'',
                 body = b\<rparr>
        in case werr of
             Some err \<Rightarrow>
               \<lparr>resp = w,
                logged = [(LevelError, ''could not write one-time verification response'',
                           [(''path'', Path r), (''err'', err)])],
                once_after = once, wg_after = wg, panicked = None\<rparr>
           | None \<Rightarrow>
               let l = [(LevelInfo, ''one-time verification response sent'',
                         [(''path'', Path r)])]
               in if exitWhenDone \<and> \<not> once then
                    \<lparr>resp = w, logged = l, once_after = True,
                     wg_after = fst (wg_Done wg), panicked = snd (wg_Done wg)\<rparr>
                  else
                    \<lparr>resp = w, logged = l, once_after = once, wg_after = wg,
                     panicked = None\<rparr>)\<close>

text \<open>
  The request of the repository's test: \<^verbatim>\<open>http.NewRequest(method, "/eventhook/test", nil)\<close>
  followed by \<^verbatim>\<open>req.Header.Set(headerKey, headerValue)\<close>.
\<close>

definition testRequest :: "string \<Rightarrow> string \<Rightarrow> string \<Rightarrow> request" where
  "testRequest m headerKey headerValue =
     \<lparr>Method = m, Path = ''/eventhook/test'',
      Header = header_Set Map.empty headerKey headerValue\<rparr>"

section \<open>Handlers sharing the completion tracker\<close>

text \<open>
  The running server: the \<^verbatim>\<open>WaitGroup\<close> all handlers share, the \<^verbatim>\<open>Once\<close> of each registered
  handler (in registration order), and the goroutine of \<^verbatim>\<open>main\<close> that runs
  \<^verbatim>\<open>wg.Wait(); close(done)\<close>: whether it is still waiting, and how often \<^verbatim>\<open>close(done)\<close>
  has run.

  Requests are served concurrently. A call of the handler touches shared state only in
  \<^verbatim>\<open>once.Do(func() { wg.Done() })\<close>, which runs under the mutex of the \<^verbatim>\<open>Once\<close>, and in
  reading \<open>exitWhenDone\<close>, which is constant once the server runs. Everything else in a
  call is local to its request and its writer. A concurrent execution therefore has the
  effect of the calls taken one at a time, in the order in which their \<^verbatim>\<open>once.Do\<close> took
  effect; a run is a list of events in that order.
\<close>

record system =
  sys_wg :: waitGroup
  sys_onces :: "bool list"
  agg_waiting :: bool
  done_closes :: nat

datatype event =
  Serve nat request "string option"
| Aggregator

text \<open>
  \<open>Serve i r werr\<close>: handler \<open>i\<close> serves \<open>r\<close> and the write returns \<open>werr\<close>. A panic in a
  handler is recovered by \<^verbatim>\<open>net/http\<close>, which goes on serving. \<open>Aggregator\<close>: the waiting
  goroutine is scheduled; \<^verbatim>\<open>Wait\<close> returns only when the counter is zero.
\<close>

fun step :: "bool \<Rightarrow> event \<Rightarrow> system \<Rightarrow> system" where
  "step exitWhenDone (Serve i r werr) s =
     (if i < length (sys_onces s) then
        let out = verificationHandler exitWhenDone (sys_onces s ! i) (sys_wg s) r werr
        in s\<lparr>sys_wg := wg_after out, sys_onces := (sys_onces s)[i := once_after out]\<rparr>
      else s)"
| "step exitWhenDone Aggregator s =
     (if agg_waiting s \<and> sys_wg s = 0 then
        s\<lparr>agg_waiting := False, done_closes := done_closes s + 1\<rparr>
      else s)"

fun run :: "bool \<Rightarrow> event list \<Rightarrow> system \<Rightarrow> system" where
  "run exitWhenDone [] s = s"
| "run exitWhenDone (e # es) s = run exitWhenDone es (step exitWhenDone e s)"

text \<open>
  What the tracker observes from handler \<open>i\<close> along a run: the sum of the decrements of the
  counter made by the calls of that handler.
\<close>

fun decrements :: "bool \<Rightarrow> nat \<Rightarrow> event list \<Rightarrow> system \<Rightarrow> int" where
  "decrements exitWhenDone i [] s = 0"
| "decrements exitWhenDone i (Serve j r werr # es) s =
     (if j = i then sys_wg s - sys_wg (step exitWhenDone (Serve j r werr) s) else 0)
     + decrements exitWhenDone i es (step exitWhenDone (Serve j r werr) s)"
| "decrements exitWhenDone i (Aggregator # es) s =
     decrements exitWhenDone i es (step exitWhenDone Aggregator s)"

section \<open>Configuration\<close>

text \<open>The four package-level variables the flags are bound to.\<close>

record config =
  address :: string
  eventHookPaths :: string
  exitWhenDone :: bool
  timeOutHours :: int

text \<open>The flag defaults of \<^verbatim>\<open>main\<close>.\<close>

definition flagDefaults :: config where
  "flagDefaults =
     \<lparr>address = '':9000'', eventHookPaths = ''/'', exitWhenDone = True, timeOutHours = 0\<rparr>"

text \<open>
  \<^verbatim>\<open>strings.EqualFold\<close> compares under Unicode simple case folding. The model folds the
  ASCII letters only; this is exact when one argument is \<^verbatim>\<open>"true"\<close>, as in \<^verbatim>\<open>main\<close>,
  because no rune outside ASCII folds to t, r, u or e.
\<close>

definition EqualFold :: "string \<Rightarrow> string \<Rightarrow> bool" where
  "EqualFold s t = (map toLowerASCII s = map toLowerASCII t)"

text \<open>
  \<^verbatim>\<open>strconv.Atoi\<close>: an optional sign and at least one decimal digit, nothing else; the
  value must fit \<^verbatim>\<open>int\<close> (64 bits on the platforms the image is built for). \<open>None\<close> is a
  non-nil error.
\<close>

definition Atoi :: "string \<Rightarrow> int option" where
  "Atoi s =
     (case s of
        [] \<Rightarrow> None
      | c # cs \<Rightarrow>
          let ds = (if c = CHR ''-'' \<or> c = CHR ''+'' then cs else s) in
          if ds = [] \<or> \<not> list_all isDigitASCII ds then None
          else
            let n = foldl (\<lambda>n ch. n * 10 + (of_char ch - 48)) (0::int) ds;
                v = (if c = CHR ''-'' then - n else n)
            in if - (2 ^ 63) \<le> v \<and> v \<le> 2 ^ 63 - 1 then Some v else None)"

text \<open>
  The overrides of \<^verbatim>\<open>main\<close>, applied to the variables as \<^verbatim>\<open>flag.Parse\<close> left them.
  \<open>getenv\<close> is \<^verbatim>\<open>os.Getenv\<close>: the empty string for a variable that is not set.
\<close>

definition envOverrides :: "(string \<Rightarrow> string) \<Rightarrow> config \<Rightarrow> config" where
  "envOverrides getenv c =
     (let c1 = (if getenv ''LISTEN_ADDRESS'' \<noteq> []
                then c\<lparr>address := getenv ''LISTEN_ADDRESS''\<rparr> else c);
          c2 = (if getenv ''EVENT_HOOK_PATHS'' \<noteq> []
                then c1\<lparr>eventHookPaths := getenv ''EVENT_HOOK_PATHS''\<rparr> else c1);
          c3 = (if getenv ''EXIT_WHEN_DONE'' \<noteq> []
                then (if EqualFold (getenv ''EXIT_WHEN_DONE'') ''true''
                      then c2\<lparr>exitWhenDone := True\<rparr> else c2)
                else c2);
          c4 = (if getenv ''TIME_OUT_HOURS'' \<noteq> []
                then (case Atoi (getenv ''TIME_OUT_HOURS'') of
                        Some v \<Rightarrow> c3\<lparr>timeOutHours := v\<rparr>
                      | None \<Rightarrow> c3)
                else c3)
      in c4)"

section \<open>Registration and the exit status of main\<close>

text \<open>\<^verbatim>\<open>strings.Split(s, sep)\<close> for a separator of one byte, as in \<^verbatim>\<open>Split(eventHookPaths, ",")\<close>.\<close>

fun Split :: "string \<Rightarrow> char \<Rightarrow> string list" where
  "Split [] sep = [[]]"
| "Split (c # cs) sep =
     (if c = sep then [] # Split cs sep
      else (case Split cs sep of
              [] \<Rightarrow> [[c]]
            | w # ws \<Rightarrow> (c # w) # ws))"

text \<open>
  \<^verbatim>\<open>ServeMux.Handle\<close> (Go 1.21) panics on the empty pattern and on a pattern that is
  registered already; otherwise it adds the pattern. The mux is the list of its patterns
  in registration order; the handler registered for the \<open>i\<close>-th pattern is handler \<open>i\<close>.
\<close>

definition mux_Handle :: "string list \<Rightarrow> string \<Rightarrow> string + string list" where
  "mux_Handle mux pattern =
     (if pattern = [] then Inl ''http: invalid pattern''
      else if pattern \<in> set mux then Inl (''http: multiple registrations for '' @ pattern)
      else Inr (mux @ [pattern]))"

record startup =
  st_wg :: waitGroup
  st_mux :: "string list"
  st_log :: "log_entry list"

definition startup0 :: startup where
  "startup0 = \<lparr>st_wg = 0, st_mux = [], st_log = []\<rparr>"

text \<open>
  The registration loop of \<^verbatim>\<open>main\<close>. The result is the panic message, if an iteration
  panicked, and the state reached.
\<close>

fun registerHandlers :: "string list \<Rightarrow> startup \<Rightarrow> string option \<times> startup" where
  "registerHandlers [] st = (None, st)"
| "registerHandlers (p # ps) st =
     (let st1 = st\<lparr>st_log := st_log st @
                   [(LevelInfo, ''registering event-hook verifier'', [(''path'', p)])]\<rparr>;
          st2 = st1\<lparr>st_wg := fst (wg_Add (st_wg st1) 1)\<rparr>
      in case snd (wg_Add (st_wg st1) 1) of
           Some msg \<Rightarrow> (Some msg, st2)
         | None \<Rightarrow>
             (case mux_Handle (st_mux st2) p of
                Inl msg \<Rightarrow> (Some msg, st2)
              | Inr mux \<Rightarrow> registerHandlers ps (st2\<lparr>st_mux := mux\<rparr>)))"

text \<open>The server as \<^verbatim>\<open>main\<close> leaves it to the requests: one fresh \<^verbatim>\<open>Once\<close> per handler.\<close>

definition serving :: "startup \<Rightarrow> system" where
  "serving st =
     \<lparr>sys_wg = st_wg st, sys_onces = replicate (length (st_mux st)) False,
      agg_waiting = True, done_closes = 0\<rparr>"

text \<open>
  How the process ends. \<^verbatim>\<open>usage\<close> ends in \<^verbatim>\<open>os.Exit(2)\<close>; the \<^verbatim>\<open>flag\<close> package calls
  it when the command line does not parse.
\<close>

datatype termination_status = Exit nat | Panic string

definition usage :: termination_status where
  "usage = Exit 2"

text \<open>\<^verbatim>\<open>http.ErrServerClosed\<close>, or any other error of \<^verbatim>\<open>ListenAndServe\<close>.\<close>

datatype serve_error = ErrServerClosed | OtherError string

text \<open>
  \<^verbatim>\<open>main\<close>, as far as its exit status goes. \<open>flags\<close> is the outcome of \<^verbatim>\<open>flag.Parse\<close>
  (\<open>None\<close>: the command line did not parse), \<open>err\<close> what \<^verbatim>\<open>server.ListenAndServe()\<close>
  returned (\<open>None\<close> for \<^verbatim>\<open>nil\<close>). The result is the status and the log calls of \<^verbatim>\<open>main\<close>
  itself.
\<close>

definition main :: "config option \<Rightarrow> (string \<Rightarrow> string) \<Rightarrow> serve_error option
    \<Rightarrow> termination_status \<times> log_entry list" where
  "main flags getenv err =
     (case flags of
        None \<Rightarrow> (usage, [])
      | Some c0 \<Rightarrow>
          let c = envOverrides getenv c0;
              (p, st) = registerHandlers (Split (eventHookPaths c) CHR '','') startup0
          in case p of
               Some msg \<Rightarrow> (Panic msg, st_log st)
             | None \<Rightarrow>
                 (case err of
                    Some (OtherError e) \<Rightarrow>
                      (Exit 1,
                       st_log st @ [(LevelError, ''unable to start server'', [(''err'', e)])])
                  | _ \<Rightarrow> (Exit 0, st_log st)))"

section \<open>The shutdown coordinator\<close>

text \<open>
  The channels \<^verbatim>\<open>gracefulShutdown\<close> selects on, and what it has done so far: \<open>stop\<close> is
  the number of signals buffered in the channel of capacity 1, \<open>done_closed\<close> and
  \<open>ctx_done\<close> say whether \<^verbatim>\<open>done\<close> and \<^verbatim>\<open>ctx.Done()\<close> are closed (a closed channel stays
  ready for ever), \<open>shutdowns\<close> lists the calls of \<^verbatim>\<open>server.Shutdown\<close> by the timeout of
  the context each was given, in nanoseconds.
\<close>

record coordinator =
  stop :: nat
  done_closed :: bool
  ctx_done :: bool
  shutdowns :: "nat list"
  clog :: "log_entry list"

definition coordinator0 :: coordinator where
  "coordinator0 =
     \<lparr>stop = 0, done_closed = False, ctx_done = False, shutdowns = [], clog = []\<rparr>"

definition Second :: nat where
  "Second = 1000000000"

text \<open>\<^verbatim>\<open>shutdownServer\<close>; \<open>err\<close> is what \<^verbatim>\<open>server.Shutdown(ctx)\<close> returns.\<close>

definition shutdownServer :: "string option \<Rightarrow> coordinator \<Rightarrow> coordinator" where
  "shutdownServer err c =
     c\<lparr>shutdowns := shutdowns c @ [30 * Second],
       clog := clog c @ [(LevelInfo, ''shutting down server...'', [])] @
               (case err of
                  None \<Rightarrow> []
                | Some e \<Rightarrow> [(LevelError, ''failed to shutdown http server'', [(''err'', e)])])\<rparr>"

text \<open>The three cases of the \<^verbatim>\<open>select\<close>.\<close>

datatype trigger = OperatorSignal | AllVerified | Deadline

text \<open>
  One iteration of the loop in which the \<^verbatim>\<open>select\<close> takes case \<open>t\<close>; \<open>None\<close> when that
  channel is not ready, so that the \<^verbatim>\<open>select\<close> cannot take it.
\<close>

fun iteration :: "trigger \<Rightarrow> string option \<Rightarrow> coordinator \<Rightarrow> coordinator option" where
  "iteration OperatorSignal err c =
     (if 0 < stop c then
        Some (shutdownServer err
               (c\<lparr>stop := stop c - 1,
                  clog := clog c @ [(LevelInfo, ''received stop signal'', [])]\<rparr>))
      else None)"
| "iteration AllVerified err c =
     (if done_closed c then
        Some (shutdownServer err
               (c\<lparr>clog := clog c @ [(LevelInfo, ''all event hooks are verified'', [])]\<rparr>))
      else None)"
| "iteration Deadline err c =
     (if ctx_done c then
        Some (shutdownServer err (c\<lparr>clog := clog c @ [(LevelInfo, ''timed out'', [])]\<rparr>))
      else None)"

text \<open>
  What happens around the loop: a signal is delivered (\<^verbatim>\<open>signal.Notify\<close> does not block:
  a signal that finds the buffer full is dropped), \<^verbatim>\<open>done\<close> is closed, the context is
  done; or the loop runs one iteration.
\<close>

datatype cevent =
  Notify
| CloseDone
| CtxDone
| Select trigger "string option"

fun is_Select :: "cevent \<Rightarrow> bool" where
  "is_Select (Select t err) = True"
| "is_Select e = False"

text \<open>
  \<^verbatim>\<open>gracefulShutdown\<close> along a schedule. The loop has no exit, so the function gives the
  state after the events of the schedule; \<open>None\<close> when the schedule is not one the
  program can follow.
\<close>

fun gracefulShutdown :: "cevent list \<Rightarrow> coordinator \<Rightarrow> coordinator option" where
  "gracefulShutdown [] c = Some c"
| "gracefulShutdown (Notify # es) c = gracefulShutdown es (c\<lparr>stop := min 1 (stop c + 1)\<rparr>)"
| "gracefulShutdown (CloseDone # es) c = gracefulShutdown es (c\<lparr>done_closed := True\<rparr>)"
| "gracefulShutdown (CtxDone # es) c = gracefulShutdown es (c\<lparr>ctx_done := True\<rparr>)"
| "gracefulShutdown (Select t err # es) c =
     (case iteration t err c of
        None \<Rightarrow> None
      | Some c' \<Rightarrow> gracefulShutdown es c')"

section \<open>Properties of the verification handler\<close>

lemma trimSpace_Nil: "trimSpace [] = []"
  by (simp add: trimSpace_def trimLeftSpace_def trimRightSpace_def spaceRunes_def)

lemma canonical_oktaVerificationHeader:
  "canonicalMIMEHeaderKey oktaVerificationHeader = ''X-Okta-Verification-Challenge''"
  by code_simp

lemma canonical_Content_Type: "canonicalMIMEHeaderKey ''Content-Type'' = ''Content-Type''"
  by code_simp

lemma header_Get_absent:
  "h ''X-Okta-Verification-Challenge'' = None \<Longrightarrow> header_Get h oktaVerificationHeader = []"
  by (simp add: header_Get_def canonical_oktaVerificationHeader)

lemma header_Get_testRequest:
  "header_Get (Header (testRequest m oktaVerificationHeader v)) oktaVerificationHeader = v"
  by (simp add: testRequest_def header_Get_def header_Set_def)

text \<open>
  C1. A GET request whose verification header is not blank after trimming is answered
  with status 200, the single header Content-Type: application/json, and the body
  \<^verbatim>\<open>{"verification" : "<v>"}\<close> where \<open>v\<close> is the header value as \<^verbatim>\<open>Header.Get\<close> returns it:
  neither trimmed nor escaped. This is what the handler hands to the writer, whatever the
  writer answers and whatever the state of the latch.
\<close>

theorem verificationHandler_success:
  assumes "Method r = ''GET''"
    and "trimSpace (header_Get (Header r) oktaVerificationHeader) \<noteq> []"
  shows \<open>status (resp (verificationHandler ewd once wg r werr)) = 200 \<and>
         wheader (resp (verificationHandler ewd once wg r werr)) =
           [''Content-Type'' \<mapsto> [''application/json'']] \<and>
         body (resp (verificationHandler ewd once wg r werr)) =
           ''{"verification" : "'' @ header_Get (Header r) oktaVerificationHeader @ ''"}''\<close>
  using assms
  by (simp add: verificationHandler_def MethodGet_def StatusOK_def header_Set_def
      canonical_Content_Type Let_def split: option.split)

text \<open>The fixture of the test: the token \<^verbatim>\<open>random-test-shared-key\<close>.\<close>

theorem verificationHandler_success_witness:
  \<open>Method (testRequest ''GET'' oktaVerificationHeader ''random-test-shared-key'') = ''GET'' \<and>
   trimSpace (header_Get
     (Header (testRequest ''GET'' oktaVerificationHeader ''random-test-shared-key''))
     oktaVerificationHeader) \<noteq> [] \<and>
   status (resp (verificationHandler True False 1
     (testRequest ''GET'' oktaVerificationHeader ''random-test-shared-key'') None)) = 200 \<and>
   wheader (resp (verificationHandler True False 1
     (testRequest ''GET'' oktaVerificationHeader ''random-test-shared-key'') None)) =
     [''Content-Type'' \<mapsto> [''application/json'']] \<and>
   body (resp (verificationHandler True False 1
     (testRequest ''GET'' oktaVerificationHeader ''random-test-shared-key'') None)) =
     ''{"verification" : "random-test-shared-key"}''\<close>
proof -
  let ?r = "testRequest ''GET'' oktaVerificationHeader ''random-test-shared-key''"
  have h1: "Method ?r = ''GET''"
    by (simp add: testRequest_def)
  have h2: "trimSpace (header_Get (Header ?r) oktaVerificationHeader) \<noteq> []"
    unfolding header_Get_testRequest by code_simp
  from verificationHandler_success [OF h1 h2, of True False 1 None] h1 h2
  show ?thesis
    by (simp add: header_Get_testRequest)
qed

text \<open>
  A token with blanks around it and a double quote inside goes into the body as it is.
\<close>

lemma verificationHandler_raw_token:
  \<open>body (resp (verificationHandler True False 1
     (testRequest ''GET'' oktaVerificationHeader '' a"b '') None)) =
   ''{"verification" : " a"b "}''\<close>
proof -
  let ?r = \<open>testRequest ''GET'' oktaVerificationHeader '' a"b ''\<close>
  have h1: "Method ?r = ''GET''"
    by (simp add: testRequest_def)
  have h2: "trimSpace (header_Get (Header ?r) oktaVerificationHeader) \<noteq> []"
    unfolding header_Get_testRequest by code_simp
  show ?thesis
    using h1 h2
    by (simp add: verificationHandler_def MethodGet_def Let_def header_Get_testRequest)
qed

text \<open>
  C4. A request whose method is not GET, and a GET request whose verification header is
  absent or blank after trimming, is answered with status 400 and an empty body; the
  \<^verbatim>\<open>Once\<close> and the \<^verbatim>\<open>WaitGroup\<close> are left as they were.
\<close>

theorem verificationHandler_bad_request:
  assumes "Method r \<noteq> ''GET'' \<or> Header r ''X-Okta-Verification-Challenge'' = None \<or>
           trimSpace (header_Get (Header r) oktaVerificationHeader) = []"
  shows "status (resp (verificationHandler ewd once wg r werr)) = 400 \<and>
         body (resp (verificationHandler ewd once wg r werr)) = [] \<and>
         once_after (verificationHandler ewd once wg r werr) = once \<and>
         wg_after (verificationHandler ewd once wg r werr) = wg \<and>
         panicked (verificationHandler ewd once wg r werr) = None"
proof -
  from assms have "Method r \<noteq> MethodGet \<or>
      trimSpace (header_Get (Header r) oktaVerificationHeader) = []"
    using header_Get_absent [of "Header r"] by (auto simp: MethodGet_def trimSpace_Nil)
  then show ?thesis
    by (auto simp: verificationHandler_def StatusBadRequest_def)
qed

text \<open>The three rejected requests of the test: POST, another header, a blank value.\<close>

theorem verificationHandler_bad_request_witness:
  "Method (testRequest ''POST'' oktaVerificationHeader ''random-test-shared-key'') \<noteq> ''GET'' \<and>
   status (resp (verificationHandler True False 1
     (testRequest ''POST'' oktaVerificationHeader ''random-test-shared-key'') None)) = 400 \<and>
   body (resp (verificationHandler True False 1
     (testRequest ''POST'' oktaVerificationHeader ''random-test-shared-key'') None)) = [] \<and>
   wg_after (verificationHandler True False 1
     (testRequest ''POST'' oktaVerificationHeader ''random-test-shared-key'') None) = 1 \<and>
   Header (testRequest ''GET'' ''Authorization'' ''random-test-shared-key'')
     ''X-Okta-Verification-Challenge'' = None \<and>
   status (resp (verificationHandler True False 1
     (testRequest ''GET'' ''Authorization'' ''random-test-shared-key'') None)) = 400 \<and>
   body (resp (verificationHandler True False 1
     (testRequest ''GET'' ''Authorization'' ''random-test-shared-key'') None)) = [] \<and>
   wg_after (verificationHandler True False 1
     (testRequest ''GET'' ''Authorization'' ''random-test-shared-key'') None) = 1 \<and>
   trimSpace (header_Get (Header (testRequest ''GET'' oktaVerificationHeader ''  ''))
     oktaVerificationHeader) = [] \<and>
   status (resp (verificationHandler True False 1
     (testRequest ''GET'' oktaVerificationHeader ''  '') None)) = 400 \<and>
   body (resp (verificationHandler True False 1
     (testRequest ''GET'' oktaVerificationHeader ''  '') None)) = [] \<and>
   wg_after (verificationHandler True False 1
     (testRequest ''GET'' oktaVerificationHeader ''  '') None) = 1"
proof -
  let ?post = "testRequest ''POST'' oktaVerificationHeader ''random-test-shared-key''"
  let ?auth = "testRequest ''GET'' ''Authorization'' ''random-test-shared-key''"
  let ?blank = "testRequest ''GET'' oktaVerificationHeader ''  ''"
  have h1: "Method ?post \<noteq> ''GET''"
    by (simp add: testRequest_def)
  have "canonicalMIMEHeaderKey ''Authorization'' = ''Authorization''"
    by code_simp
  then have h2: "Header ?auth ''X-Okta-Verification-Challenge'' = None"
    by (simp add: testRequest_def header_Set_def)
  have h3: "trimSpace (header_Get (Header ?blank) oktaVerificationHeader) = []"
    unfolding header_Get_testRequest by code_simp
  from verificationHandler_bad_request [of ?post True False 1 None]
    verificationHandler_bad_request [of ?auth True False 1 None]
    verificationHandler_bad_request [of ?blank True False 1 None]
    h1 h2 h3
  show ?thesis by simp
qed

text \<open>
  C6. When the write of the success body fails, the handler logs the failure and
  returns: the \<^verbatim>\<open>Once\<close> and the \<^verbatim>\<open>WaitGroup\<close> are left as they were.
\<close>

theorem verificationHandler_write_error:
  assumes "Method r = ''GET''"
    and "trimSpace (header_Get (Header r) oktaVerificationHeader) \<noteq> []"
  shows "once_after (verificationHandler ewd once wg r (Some err)) = once \<and>
         wg_after (verificationHandler ewd once wg r (Some err)) = wg \<and>
         panicked (verificationHandler ewd once wg r (Some err)) = None \<and>
         logged (verificationHandler ewd once wg r (Some err)) =
           [(LevelError, ''could not write one-time verification response'',
             [(''path'', Path r), (''err'', err)])]"
  using assms by (simp add: verificationHandler_def MethodGet_def Let_def)

theorem verificationHandler_write_error_witness:
  "Method (testRequest ''GET'' oktaVerificationHeader ''random-test-shared-key'') = ''GET'' \<and>
   trimSpace (header_Get
     (Header (testRequest ''GET'' oktaVerificationHeader ''random-test-shared-key''))
     oktaVerificationHeader) \<noteq> [] \<and>
   once_after (verificationHandler True False 1
     (testRequest ''GET'' oktaVerificationHeader ''random-test-shared-key'')
     (Some ''broken pipe'')) = False \<and>
   wg_after (verificationHandler True False 1
     (testRequest ''GET'' oktaVerificationHeader ''random-test-shared-key'')
     (Some ''broken pipe'')) = 1 \<and>
   logged (verificationHandler True False 1
     (testRequest ''GET'' oktaVerificationHeader ''random-test-shared-key'')
     (Some ''broken pipe'')) =
     [(LevelError, ''could not write one-time verification response'',
       [(''path'', ''/eventhook/test''), (''err'', ''broken pipe'')])]"
proof -
  let ?r = "testRequest ''GET'' oktaVerificationHeader ''random-test-shared-key''"
  have h1: "Method ?r = ''GET''"
    by (simp add: testRequest_def)
  have h2: "trimSpace (header_Get (Header ?r) oktaVerificationHeader) \<noteq> []"
    unfolding header_Get_testRequest by code_simp
  have p: "Path ?r = ''/eventhook/test''"
    by (simp add: testRequest_def)
  from verificationHandler_write_error [OF h1 h2, of True False 1 "''broken pipe''"] h1 h2 p
  show ?thesis by simp
qed

text \<open>
  C10. The response is a function of the method and of the value of the verification
  header alone: two calls whose requests agree on both hand the same status, headers and
  body to their writers, whatever the paths, the other headers, the latch, the counter,
  the option and the answers of the writers. Changing the path of a request changes
  nothing but the log entries.
\<close>

theorem response_depends_on_method_and_header_only:
  assumes "Method r1 = Method r2"
    and "header_Get (Header r1) oktaVerificationHeader =
         header_Get (Header r2) oktaVerificationHeader"
  shows "resp (verificationHandler e1 o1 w1 r1 we1) = resp (verificationHandler e2 o2 w2 r2 we2) \<and>
         verificationHandler e1 o1 w1 (r1\<lparr>Path := p\<rparr>) we1 =
           (verificationHandler e1 o1 w1 r1 we1)
             \<lparr>logged := logged (verificationHandler e1 o1 w1 (r1\<lparr>Path := p\<rparr>) we1)\<rparr>"
  using assms by (simp add: verificationHandler_def Let_def split: option.split)

theorem response_depends_on_method_and_header_only_witness:
  "Method (testRequest ''GET'' oktaVerificationHeader ''key'') =
     Method \<lparr>Method = ''GET'', Path = ''/other'',
       Header = [''X-Okta-Verification-Challenge'' \<mapsto> [''key''], ''Accept'' \<mapsto> [''*/*'']]\<rparr> \<and>
   header_Get (Header (testRequest ''GET'' oktaVerificationHeader ''key'')) oktaVerificationHeader =
     header_Get (Header \<lparr>Method = ''GET'', Path = ''/other'',
       Header = [''X-Okta-Verification-Challenge'' \<mapsto> [''key''], ''Accept'' \<mapsto> [''*/*'']]\<rparr>)
       oktaVerificationHeader \<and>
   resp (verificationHandler True False 1 (testRequest ''GET'' oktaVerificationHeader ''key'') None) =
     resp (verificationHandler False True 0
       \<lparr>Method = ''GET'', Path = ''/other'',
         Header = [''X-Okta-Verification-Challenge'' \<mapsto> [''key''], ''Accept'' \<mapsto> [''*/*'']]\<rparr>
       (Some ''broken pipe''))"
proof -
  let ?r1 = "testRequest ''GET'' oktaVerificationHeader ''key''"
  let ?r2 = "\<lparr>Method = ''GET'', Path = ''/other'',
       Header = [''X-Okta-Verification-Challenge'' \<mapsto> [''key''], ''Accept'' \<mapsto> [''*/*'']]\<rparr>"
  have h1: "Method ?r1 = Method ?r2"
    by (simp add: testRequest_def)
  have g1: "header_Get (Header ?r1) oktaVerificationHeader = ''key''"
    by (rule header_Get_testRequest)
  have g2: "header_Get (Header ?r2) oktaVerificationHeader = ''key''"
    by (simp add: header_Get_def canonical_oktaVerificationHeader)
  have h2: "header_Get (Header ?r1) oktaVerificationHeader =
            header_Get (Header ?r2) oktaVerificationHeader"
    by (simp only: g1 g2)
  from response_depends_on_method_and_header_only
    [OF h1 h2, of True False 1 None False True 0 "Some ''broken pipe''"] h1 h2
  show ?thesis by simp
qed

section \<open>Properties of the completion latch\<close>

lemma wg_after_verificationHandler:
  "wg_after (verificationHandler ewd once wg r werr) =
     (if ewd \<and> \<not> once \<and> Method r = MethodGet \<and>
         trimSpace (header_Get (Header r) oktaVerificationHeader) \<noteq> [] \<and> werr = None
      then wg - 1 else wg)"
  by (simp add: verificationHandler_def Let_def wg_Done_def wg_Add_def split: option.split)

lemma once_after_verificationHandler:
  "once_after (verificationHandler ewd once wg r werr) =
     (once \<or> (ewd \<and> Method r = MethodGet \<and>
         trimSpace (header_Get (Header r) oktaVerificationHeader) \<noteq> [] \<and> werr = None))"
  by (auto simp add: verificationHandler_def Let_def split: option.split)

lemma step_completed:
  assumes "i < length (sys_onces s)" and "sys_onces s ! i"
  shows "step ewd (Serve i r werr) s = s"
  using assms by (simp add: wg_after_verificationHandler once_after_verificationHandler Let_def list_update_same_conv)

lemma length_onces_step: "length (sys_onces (step ewd e s)) = length (sys_onces s)"
  by (cases e) (simp_all add: Let_def)

lemma onces_step_other:
  assumes "\<forall>r werr. e \<noteq> Serve i r werr"
  shows "sys_onces (step ewd e s) ! i = sys_onces s ! i"
proof (cases e)
  case Aggregator
  then show ?thesis by simp
next
  case (Serve j r werr)
  with assms have "j \<noteq> i" by auto
  with Serve show ?thesis by (simp add: Let_def)
qed

lemma onces_step_Serve:
  "i < length (sys_onces s) \<Longrightarrow>
   sys_onces (step ewd (Serve i r werr) s) ! i =
     (sys_onces s ! i \<or> (ewd \<and> Method r = MethodGet \<and>
         trimSpace (header_Get (Header r) oktaVerificationHeader) \<noteq> [] \<and> werr = None))"
  by (simp add: Let_def once_after_verificationHandler)

lemma wg_step_Serve:
  "sys_wg s - sys_wg (step ewd (Serve i r werr) s) =
     (if i < length (sys_onces s) \<and> \<not> sys_onces s ! i \<and>
         sys_onces (step ewd (Serve i r werr) s) ! i then 1 else 0)"
  by (simp add: Let_def once_after_verificationHandler wg_after_verificationHandler)

lemma decrements_bounds:
  "0 \<le> decrements ewd i es s \<and>
   decrements ewd i es s \<le> (if i < length (sys_onces s) \<and> \<not> sys_onces s ! i then 1 else 0)"
proof (induction es arbitrary: s)
  case Nil
  show ?case by simp
next
  case (Cons e es)
  show ?case
  proof (cases e)
    case Aggregator
    have "sys_onces (step ewd Aggregator s) = sys_onces s" by simp
    with Cons.IH [of "step ewd Aggregator s"] Aggregator show ?thesis
      by (simp del: step.simps)
  next
    case (Serve j r werr)
    let ?s' = "step ewd (Serve j r werr) s"
    note IH = Cons.IH [of ?s']
    show ?thesis
    proof (cases "j = i")
      case False
      then have "sys_onces ?s' ! i = sys_onces s ! i"
        by (intro onces_step_other) simp
      with IH False Serve show ?thesis
        by (simp del: step.simps add: length_onces_step)
    next
      case True
      define pending where
        "pending t \<longleftrightarrow> i < length (sys_onces t) \<and> \<not> sys_onces t ! i" for t :: system
      have wg: "sys_wg s - sys_wg ?s' = (if pending s \<and> \<not> pending ?s' then 1 else 0)"
        using wg_step_Serve [of s ewd i r werr] True
        by (auto simp del: step.simps simp add: pending_def length_onces_step)
      have mono: "pending ?s' \<Longrightarrow> pending s"
        using onces_step_Serve [of i s ewd r werr] True
        by (auto simp del: step.simps simp add: pending_def length_onces_step)
      have rest: "0 \<le> decrements ewd i es ?s'"
        "decrements ewd i es ?s' \<le> (if pending ?s' then 1 else 0)"
        using IH by (simp_all add: pending_def)
      have "decrements ewd i (e # es) s = (sys_wg s - sys_wg ?s') + decrements ewd i es ?s'"
        using Serve True by (simp del: step.simps)
      with wg mono rest have "0 \<le> decrements ewd i (e # es) s \<and>
          decrements ewd i (e # es) s \<le> (if pending s then 1 else 0)"
        by (auto split: if_splits)
      then show ?thesis by (simp add: pending_def)
    qed
  qed
qed

lemma decrements_exactly_one:
  assumes "i < length (sys_onces s)" and "\<not> sys_onces s ! i"
    and "Serve i r None \<in> set es"
    and "Method r = ''GET''" and "trimSpace (header_Get (Header r) oktaVerificationHeader) \<noteq> []"
  shows "decrements True i es s = 1"
  using assms(1-3)
proof (induction es arbitrary: s)
  case Nil
  then show ?case by simp
next
  case (Cons e es)
  let ?s' = "step True e s"
  have len: "i < length (sys_onces ?s')"
    using Cons.prems(1) by (simp add: length_onces_step)
  show ?case
  proof (cases "sys_onces ?s' ! i")
    case True
    then obtain r' werr' where e: "e = Serve i r' werr'"
      using onces_step_other [of e i True s] Cons.prems(2) by auto
    have "sys_wg s - sys_wg ?s' = 1"
      using wg_step_Serve [of s True i r' werr'] True Cons.prems(1,2) e by simp
    moreover have "decrements True i es ?s' = 0"
      using decrements_bounds [of True i es ?s'] True by simp
    ultimately show ?thesis
      using e by (simp del: step.simps)
  next
    case False
    have ne: "e \<noteq> Serve i r None"
      using False onces_step_Serve [of i s True r None] Cons.prems(1) assms(4,5)
      by (auto simp: MethodGet_def)
    with Cons.prems(3) have "Serve i r None \<in> set es" by simp
    with Cons.IH [of ?s'] False len
    have rest: "decrements True i es ?s' = 1" by simp
    show ?thesis
    proof (cases e)
      case Aggregator
      with rest show ?thesis by (simp del: step.simps)
    next
      case (Serve j r' werr')
      have "j = i \<Longrightarrow> sys_wg s - sys_wg ?s' = 0"
        using wg_step_Serve [of s True i r' werr'] False Serve by simp
      with rest Serve show ?thesis by (simp del: step.simps)
    qed
  qed
qed

lemma done_closes_bound:
  "done_closes (run ewd es s) \<le> done_closes s + (if agg_waiting s then 1 else 0)"
proof (induction es arbitrary: s)
  case Nil
  show ?case by simp
next
  case (Cons e es)
  have "done_closes (step ewd e s) + (if agg_waiting (step ewd e s) then 1 else 0)
        \<le> done_closes s + (if agg_waiting s then 1 else 0)"
    by (cases e) (simp_all add: Let_def)
  with Cons.IH [of "step ewd e s"] show ?case
    by (simp del: step.simps)
qed

lemma done_closes_mono: "done_closes s \<le> done_closes (run ewd es s)"
proof (induction es arbitrary: s)
  case Nil
  show ?case by simp
next
  case (Cons e es)
  have "done_closes s \<le> done_closes (step ewd e s)"
    by (cases e) (simp_all add: Let_def)
  with Cons.IH [of "step ewd e s"] show ?case
    by (simp del: step.simps)
qed

text \<open>
  C2. With exit-when-done enabled, along every run (every order in which the calls of
  all handlers take effect) and from every state of the server: the counter sees at most
  one decrement from handler \<open>i\<close>; it sees exactly one when the handler had not fired and
  the run holds a successful request to it; a call to a handler that has fired leaves
  the whole state as it is, so it neither decrements the counter nor closes \<^verbatim>\<open>done\<close>; and
  \<^verbatim>\<open>close(done)\<close> runs at most once, never again once the waiting goroutine has gone.
\<close>

theorem completion_latch_fires_once:
  "0 \<le> decrements True i es s \<and> decrements True i es s \<le> 1 \<and>
   (i < length (sys_onces s) \<and> \<not> sys_onces s ! i \<and> Serve i r None \<in> set es \<and>
    Method r = ''GET'' \<and> trimSpace (header_Get (Header r) oktaVerificationHeader) \<noteq> []
      \<longrightarrow> decrements True i es s = 1) \<and>
   (i < length (sys_onces s) \<and> sys_onces s ! i
      \<longrightarrow> step True (Serve i r' werr) s = s \<and> decrements True i es s = 0) \<and>
   done_closes (run True es s) \<le> done_closes s + 1 \<and>
   (\<not> agg_waiting s \<longrightarrow> done_closes (run True es s) = done_closes s)"
proof -
  have bounds: "0 \<le> decrements True i es s"
    "decrements True i es s \<le> (if i < length (sys_onces s) \<and> \<not> sys_onces s ! i then 1 else 0)"
    using decrements_bounds [of True i es s] by simp_all
  have closes: "done_closes (run True es s) \<le> done_closes s + (if agg_waiting s then 1 else 0)"
    by (rule done_closes_bound)
  have "decrements True i es s \<le> 1"
    using bounds(2) by (simp split: if_splits)
  moreover have "i < length (sys_onces s) \<and> sys_onces s ! i \<longrightarrow> decrements True i es s = 0"
    using bounds by (simp split: if_splits)
  moreover have "done_closes (run True es s) \<le> done_closes s + 1"
    using closes by (simp split: if_splits)
  moreover have "\<not> agg_waiting s \<longrightarrow> done_closes (run True es s) = done_closes s"
    using closes done_closes_mono [of s True es] by (simp split: if_splits)
  ultimately show ?thesis
    using bounds(1) step_completed [of i s True r' werr]
      decrements_exactly_one [of i s r es]
    by blast
qed

text \<open>
  One handler, three calls and the waiting goroutine: the first successful request
  decrements the counter, the second finds the latch fired.
\<close>

theorem completion_latch_fires_once_witness:
  "0 < length (sys_onces \<lparr>sys_wg = 1, sys_onces = [False], agg_waiting = True, done_closes = 0\<rparr>) \<and>
   \<not> sys_onces \<lparr>sys_wg = 1, sys_onces = [False], agg_waiting = True, done_closes = 0\<rparr> ! 0 \<and>
   Method (testRequest ''GET'' oktaVerificationHeader ''random-test-shared-key'') = ''GET'' \<and>
   trimSpace (header_Get
     (Header (testRequest ''GET'' oktaVerificationHeader ''random-test-shared-key''))
     oktaVerificationHeader) \<noteq> [] \<and>
   decrements True 0
     [Serve 0 (testRequest ''GET'' oktaVerificationHeader ''random-test-shared-key'') None,
      Aggregator,
      Serve 0 (testRequest ''GET'' oktaVerificationHeader ''random-test-shared-key'') None,
      Aggregator]
     \<lparr>sys_wg = 1, sys_onces = [False], agg_waiting = True, done_closes = 0\<rparr> = 1 \<and>
   sys_onces \<lparr>sys_wg = 0, sys_onces = [True], agg_waiting = False, done_closes = 1\<rparr> ! 0 \<and>
   step True
     (Serve 0 (testRequest ''GET'' oktaVerificationHeader ''random-test-shared-key'') None)
     \<lparr>sys_wg = 0, sys_onces = [True], agg_waiting = False, done_closes = 1\<rparr> =
     \<lparr>sys_wg = 0, sys_onces = [True], agg_waiting = False, done_closes = 1\<rparr> \<and>
   done_closes (run True
     [Serve 0 (testRequest ''GET'' oktaVerificationHeader ''random-test-shared-key'') None,
      Aggregator]
     \<lparr>sys_wg = 0, sys_onces = [True], agg_waiting = False, done_closes = 1\<rparr>) = 1"
proof -
  let ?r = "testRequest ''GET'' oktaVerificationHeader ''random-test-shared-key''"
  let ?s0 = "\<lparr>sys_wg = 1, sys_onces = [False], agg_waiting = True, done_closes = 0\<rparr>"
  let ?s1 = "\<lparr>sys_wg = 0, sys_onces = [True], agg_waiting = False, done_closes = 1\<rparr>"
  have h1: "Method ?r = ''GET''"
    by (simp add: testRequest_def)
  have h2: "trimSpace (header_Get (Header ?r) oktaVerificationHeader) \<noteq> []"
    unfolding header_Get_testRequest by code_simp
  from completion_latch_fires_once
      [of 0 "[Serve 0 ?r None, Aggregator, Serve 0 ?r None, Aggregator]" ?s0 ?r ?r None]
    completion_latch_fires_once [of 0 "[Serve 0 ?r None, Aggregator]" ?s1 ?r ?r None]
    h1 h2
  show ?thesis by simp
qed

section \<open>Properties of the configuration\<close>

lemma Atoi_Nil: "Atoi [] = None"
  by (simp add: Atoi_def)

lemma EqualFold_Nil_true: "\<not> EqualFold [] ''true''"
  by (simp add: EqualFold_def)

text \<open>
  C7, as the code has it. A non-empty \<^verbatim>\<open>LISTEN_ADDRESS\<close> or \<^verbatim>\<open>EVENT_HOOK_PATHS\<close> replaces the
  flag value. \<^verbatim>\<open>TIME_OUT_HOURS\<close> replaces the flag value when \<^verbatim>\<open>strconv.Atoi\<close> accepts it,
  and is ignored otherwise. \<^verbatim>\<open>EXIT_WHEN_DONE\<close> sets the option when it equals \<^verbatim>\<open>true\<close>
  under case folding.
\<close>

theorem envOverrides_precedence:
  "(getenv ''LISTEN_ADDRESS'' \<noteq> [] \<longrightarrow>
      address (envOverrides getenv c) = getenv ''LISTEN_ADDRESS'') \<and>
   (getenv ''EVENT_HOOK_PATHS'' \<noteq> [] \<longrightarrow>
      eventHookPaths (envOverrides getenv c) = getenv ''EVENT_HOOK_PATHS'') \<and>
   (EqualFold (getenv ''EXIT_WHEN_DONE'') ''true'' \<longrightarrow>
      exitWhenDone (envOverrides getenv c)) \<and>
   (\<forall>v. Atoi (getenv ''TIME_OUT_HOURS'') = Some v \<longrightarrow>
      timeOutHours (envOverrides getenv c) = v) \<and>
   (Atoi (getenv ''TIME_OUT_HOURS'') = None \<longrightarrow>
      timeOutHours (envOverrides getenv c) = timeOutHours c)"
  using Atoi_Nil EqualFold_Nil_true
  by (auto simp: envOverrides_def Let_def split: option.split)

text \<open>
  All four variables set, over flags that say otherwise; and \<^verbatim>\<open>TIME_OUT_HOURS\<close> set to
  something that is no number.
\<close>

theorem envOverrides_precedence_witness:
  "envOverrides
     ((\<lambda>v. [])(''LISTEN_ADDRESS'' := '':8080'', ''EVENT_HOOK_PATHS'' := ''/a,/b'',
                ''EXIT_WHEN_DONE'' := ''TRUE'', ''TIME_OUT_HOURS'' := ''3''))
     \<lparr>address = '':9000'', eventHookPaths = ''/'', exitWhenDone = False, timeOutHours = 0\<rparr> =
     \<lparr>address = '':8080'', eventHookPaths = ''/a,/b'', exitWhenDone = True, timeOutHours = 3\<rparr> \<and>
   Atoi ''soon'' = None \<and>
   timeOutHours (envOverrides ((\<lambda>v. [])(''TIME_OUT_HOURS'' := ''soon''))
     \<lparr>address = '':9000'', eventHookPaths = ''/'', exitWhenDone = False, timeOutHours = 7\<rparr>) = 7"
proof -
  let ?env = "(\<lambda>v. [])(''LISTEN_ADDRESS'' := '':8080'', ''EVENT_HOOK_PATHS'' := ''/a,/b'',
                ''EXIT_WHEN_DONE'' := ''TRUE'', ''TIME_OUT_HOURS'' := ''3'')"
  let ?c = "\<lparr>address = '':9000'', eventHookPaths = ''/'', exitWhenDone = False,
             timeOutHours = 0\<rparr>"
  let ?env' = "(\<lambda>v. [])(''TIME_OUT_HOURS'' := ''soon'')"
  let ?c' = "\<lparr>address = '':9000'', eventHookPaths = ''/'', exitWhenDone = False,
              timeOutHours = 7\<rparr>"
  have f: "EqualFold ''TRUE'' ''true''"
    by code_simp
  have a: "Atoi ''3'' = Some 3"
    by code_simp
  have n: "Atoi ''soon'' = None"
    by code_simp
  have "address (envOverrides ?env ?c) = '':8080'' \<and>
        eventHookPaths (envOverrides ?env ?c) = ''/a,/b'' \<and>
        exitWhenDone (envOverrides ?env ?c) \<and>
        timeOutHours (envOverrides ?env ?c) = 3"
    using envOverrides_precedence [of ?env ?c] f a by simp
  then have "envOverrides ?env ?c =
      \<lparr>address = '':8080'', eventHookPaths = ''/a,/b'', exitWhenDone = True, timeOutHours = 3\<rparr>"
    by (cases "envOverrides ?env ?c") simp
  moreover have "timeOutHours (envOverrides ?env' ?c') = 7"
    using envOverrides_precedence [of ?env' ?c'] n by simp
  ultimately show ?thesis
    using n by simp
qed

text \<open>
  The claim as it is written fails: with the flag at its default \<open>True\<close>,
  \<^verbatim>\<open>EXIT_WHEN_DONE=false\<close> leaves the option \<open>True\<close>; and \<^verbatim>\<open>TIME_OUT_HOURS=soon\<close> leaves
  the flag value 7.
\<close>

theorem envOverrides_precedence_counterexample:
  "exitWhenDone flagDefaults \<and>
   exitWhenDone (envOverrides ((\<lambda>v. [])(''EXIT_WHEN_DONE'' := ''false'')) flagDefaults) \<and>
   timeOutHours (envOverrides ((\<lambda>v. [])(''TIME_OUT_HOURS'' := ''soon''))
     \<lparr>address = '':9000'', eventHookPaths = ''/'', exitWhenDone = False, timeOutHours = 7\<rparr>) = 7"
proof -
  have n: "Atoi ''soon'' = None"
    by code_simp
  have f: "\<not> EqualFold ''false'' ''true''"
    by code_simp
  show ?thesis
    using n f
    by (simp add: envOverrides_def flagDefaults_def Atoi_Nil EqualFold_Nil_true)
qed

section \<open>Properties of registration and of the exit status\<close>

lemma registerHandlers_ok:
  assumes "distinct (st_mux st @ ps)" and "[] \<notin> set ps" and "0 \<le> st_wg st"
  shows "fst (registerHandlers ps st) = None \<and>
         st_wg (snd (registerHandlers ps st)) = st_wg st + int (length ps) \<and>
         st_mux (snd (registerHandlers ps st)) = st_mux st @ ps"
  using assms
proof (induction ps arbitrary: st)
  case Nil
  show ?case by simp
next
  case (Cons p ps)
  let ?st' = "st\<lparr>st_log := st_log st @
                   [(LevelInfo, ''registering event-hook verifier'', [(''path'', p)])],
               st_wg := st_wg st + 1, st_mux := st_mux st @ [p]\<rparr>"
  have "p \<noteq> []" "p \<notin> set (st_mux st)"
    using Cons.prems by auto
  then have unfold: "registerHandlers (p # ps) st = registerHandlers ps ?st'"
    using Cons.prems(3) by (simp add: Let_def wg_Add_def mux_Handle_def)
  have "distinct (st_mux ?st' @ ps)" "[] \<notin> set ps" "0 \<le> st_wg ?st'"
    using Cons.prems by auto
  from Cons.IH [OF this] show ?case
    unfolding unfold by simp
qed

lemma registerHandlers_panics:
  assumes "\<not> distinct (st_mux st @ ps) \<or> [] \<in> set ps" and "distinct (st_mux st)"
  shows "fst (registerHandlers ps st) \<noteq> None"
  using assms
proof (induction ps arbitrary: st)
  case Nil
  then show ?case by simp
next
  case (Cons p ps)
  show ?case
  proof (cases "snd (wg_Add (st_wg st) 1) = None \<and> p \<noteq> [] \<and> p \<notin> set (st_mux st)")
    case False
    then show ?thesis
      by (auto simp: Let_def mux_Handle_def split: option.split)
  next
    case True
    let ?st' = "st\<lparr>st_log := st_log st @
                   [(LevelInfo, ''registering event-hook verifier'', [(''path'', p)])],
               st_wg := fst (wg_Add (st_wg st) 1), st_mux := st_mux st @ [p]\<rparr>"
    have unfold: "registerHandlers (p # ps) st = registerHandlers ps ?st'"
      using True by (simp add: Let_def mux_Handle_def)
    have "\<not> distinct (st_mux ?st' @ ps) \<or> [] \<in> set ps" "distinct (st_mux ?st')"
      using Cons.prems True by auto
    from Cons.IH [OF this] show ?thesis
      unfolding unfold .
  qed
qed

lemma registerHandlers_append:
  assumes "distinct (st_mux st @ xs)" and "[] \<notin> set xs" and "0 \<le> st_wg st"
  shows "registerHandlers (xs @ ys) st =
         registerHandlers ys
           (st\<lparr>st_log := st_log st @
                  map (\<lambda>p. (LevelInfo, ''registering event-hook verifier'', [(''path'', p)])) xs,
               st_wg := st_wg st + int (length xs), st_mux := st_mux st @ xs\<rparr>)"
  using assms
proof (induction xs arbitrary: st)
  case Nil
  show ?case by simp
next
  case (Cons p xs)
  let ?st' = "st\<lparr>st_log := st_log st @
                   [(LevelInfo, ''registering event-hook verifier'', [(''path'', p)])],
               st_wg := st_wg st + 1, st_mux := st_mux st @ [p]\<rparr>"
  have "p \<noteq> []" "p \<notin> set (st_mux st)"
    using Cons.prems by auto
  then have unfold: "registerHandlers ((p # xs) @ ys) st = registerHandlers (xs @ ys) ?st'"
    using Cons.prems(3) by (simp add: Let_def wg_Add_def mux_Handle_def)
  have "distinct (st_mux ?st' @ xs)" "[] \<notin> set xs" "0 \<le> st_wg ?st'"
    using Cons.prems by auto
  from Cons.IH [OF this] show ?case
    unfolding unfold by (simp add: add.assoc)
qed

lemma registerHandlers_refused:
  assumes "p = [] \<or> p \<in> set (st_mux st)" and "0 \<le> st_wg st"
  shows "registerHandlers (p # ys) st =
         (Some (if p = [] then ''http: invalid pattern''
                else ''http: multiple registrations for '' @ p),
          st\<lparr>st_log := st_log st @
                 [(LevelInfo, ''registering event-hook verifier'', [(''path'', p)])],
              st_wg := st_wg st + 1\<rparr>)"
  using assms by (auto simp: Let_def wg_Add_def mux_Handle_def)

text \<open>
  C5, as the code has it. The loop raises the counter by one for each entry it reaches,
  before it registers the entry. When the entries are pairwise distinct and none is empty,
  it reaches them all: every entry is a registered path with a latch of its own, and the
  counter is the number of distinct configured paths. Otherwise nothing collapses: at the
  first entry \<open>k\<close> (counted from 0) that is empty or repeats an earlier one the loop panics,
  with the counter at \<open>k + 1\<close>, raised for that entry already, and only the \<open>k\<close> entries
  before it registered; the entries after it are never reached.
\<close>

theorem registerHandlers_count:
  "(distinct (Split paths CHR '','') \<and> [] \<notin> set (Split paths CHR '','') \<longrightarrow>
      registerHandlers (Split paths CHR '','') startup0 =
        (None,
         \<lparr>st_wg = int (card (set (Split paths CHR '',''))),
          st_mux = Split paths CHR '','',
          st_log = map (\<lambda>p. (LevelInfo, ''registering event-hook verifier'', [(''path'', p)]))
                     (Split paths CHR '','')\<rparr>) \<and>
      sys_wg (serving (snd (registerHandlers (Split paths CHR '','') startup0))) =
        int (length (sys_onces (serving (snd (registerHandlers (Split paths CHR '','') startup0)))))) \<and>
   (k < length (Split paths CHR '','') \<and>
    distinct (take k (Split paths CHR '','')) \<and> [] \<notin> set (take k (Split paths CHR '','')) \<and>
    (Split paths CHR '','' ! k = [] \<or>
     Split paths CHR '','' ! k \<in> set (take k (Split paths CHR '',''))) \<longrightarrow>
      registerHandlers (Split paths CHR '','') startup0 =
        (Some (if Split paths CHR '','' ! k = [] then ''http: invalid pattern''
               else ''http: multiple registrations for '' @ Split paths CHR '','' ! k),
         \<lparr>st_wg = int k + 1,
          st_mux = take k (Split paths CHR '',''),
          st_log = map (\<lambda>p. (LevelInfo, ''registering event-hook verifier'', [(''path'', p)]))
                     (take (Suc k) (Split paths CHR '',''))\<rparr>))"
proof -
  let ?ps = "Split paths CHR '',''"
  let ?l = "\<lambda>p. (LevelInfo, ''registering event-hook verifier'', [(''path'', p)])"
  have all: "distinct ?ps \<and> [] \<notin> set ?ps \<Longrightarrow>
      registerHandlers ?ps startup0 =
        (None, \<lparr>st_wg = int (length ?ps), st_mux = ?ps, st_log = map ?l ?ps\<rparr>)"
    using registerHandlers_append [of startup0 ?ps "[]"] by (simp add: startup0_def)
  have card: "distinct ?ps \<Longrightarrow> card (set ?ps) = length ?ps"
    by (rule distinct_card)
  have stop: "registerHandlers ?ps startup0 =
        (Some (if ?ps ! k = [] then ''http: invalid pattern''
               else ''http: multiple registrations for '' @ ?ps ! k),
         \<lparr>st_wg = int k + 1, st_mux = take k ?ps, st_log = map ?l (take (Suc k) ?ps)\<rparr>)"
    if k: "k < length ?ps" and good: "distinct (take k ?ps)" "[] \<notin> set (take k ?ps)"
      and bad: "?ps ! k = [] \<or> ?ps ! k \<in> set (take k ?ps)"
  proof -
    have split: "?ps = take k ?ps @ ?ps ! k # drop (Suc k) ?ps"
      using k by (rule id_take_nth_drop)
    let ?st = "\<lparr>st_wg = int k, st_mux = take k ?ps, st_log = map ?l (take k ?ps)\<rparr>"
    have "registerHandlers (take k ?ps @ ?ps ! k # drop (Suc k) ?ps) startup0 =
        registerHandlers (?ps ! k # drop (Suc k) ?ps) ?st"
      using registerHandlers_append [of startup0 "take k ?ps" "?ps ! k # drop (Suc k) ?ps"]
        good k
      by (simp add: startup0_def)
    also have "\<dots> =
        (Some (if ?ps ! k = [] then ''http: invalid pattern''
               else ''http: multiple registrations for '' @ ?ps ! k),
         \<lparr>st_wg = int k + 1, st_mux = take k ?ps, st_log = map ?l (take (Suc k) ?ps)\<rparr>)"
      using registerHandlers_refused [of "?ps ! k" ?st "drop (Suc k) ?ps"] bad k
      by (simp add: take_Suc_conv_app_nth)
    finally show ?thesis
      using split by simp
  qed
  show ?thesis
    using all card stop by (auto simp: serving_def)
qed

text \<open>
  Two distinct paths are both registered; in \<^verbatim>\<open>/a,/a,/b\<close> the loop stops at the second
  entry with the counter at 2 and \<^verbatim>\<open>/b\<close> is never reached.
\<close>

theorem registerHandlers_count_witness:
  "distinct (Split ''/eventhook/test1,/eventhook/test2'' CHR '','') \<and>
   [] \<notin> set (Split ''/eventhook/test1,/eventhook/test2'' CHR '','') \<and>
   registerHandlers (Split ''/eventhook/test1,/eventhook/test2'' CHR '','') startup0 =
     (None,
      \<lparr>st_wg = 2, st_mux = [''/eventhook/test1'', ''/eventhook/test2''],
       st_log = [(LevelInfo, ''registering event-hook verifier'', [(''path'', ''/eventhook/test1'')]),
                 (LevelInfo, ''registering event-hook verifier'', [(''path'', ''/eventhook/test2'')])]\<rparr>) \<and>
   (1::nat) < length (Split ''/a,/a,/b'' CHR '','') \<and>
   distinct (take 1 (Split ''/a,/a,/b'' CHR '','')) \<and>
   [] \<notin> set (take 1 (Split ''/a,/a,/b'' CHR '','')) \<and>
   Split ''/a,/a,/b'' CHR '','' ! 1 \<in> set (take 1 (Split ''/a,/a,/b'' CHR '','')) \<and>
   registerHandlers (Split ''/a,/a,/b'' CHR '','') startup0 =
     (Some ''http: multiple registrations for /a'',
      \<lparr>st_wg = 2, st_mux = [''/a''],
       st_log = [(LevelInfo, ''registering event-hook verifier'', [(''path'', ''/a'')]),
                 (LevelInfo, ''registering event-hook verifier'', [(''path'', ''/a'')])]\<rparr>)"
proof -
  have s1: "Split ''/eventhook/test1,/eventhook/test2'' CHR '','' =
      [''/eventhook/test1'', ''/eventhook/test2'']"
    by simp
  have s2: "Split ''/a,/a,/b'' CHR '','' = [''/a'', ''/a'', ''/b'']"
    by simp
  from registerHandlers_count [of "''/eventhook/test1,/eventhook/test2''" 0]
    registerHandlers_count [of "''/a,/a,/b''" 1]
  show ?thesis
    unfolding s1 s2 by simp
qed

text \<open>
  The claim as it is written fails: for \<^verbatim>\<open>/a,/a\<close> there is one distinct path, the
  counter has been raised twice, and the second \<^verbatim>\<open>mux.Handle\<close> panics.
\<close>

theorem registerHandlers_count_counterexample:
  "card (set (Split ''/a,/a'' CHR '','')) = 1 \<and>
   fst (registerHandlers (Split ''/a,/a'' CHR '','') startup0) =
     Some ''http: multiple registrations for /a'' \<and>
   st_wg (snd (registerHandlers (Split ''/a,/a'' CHR '','') startup0)) = 2"
proof -
  have s: "Split ''/a,/a'' CHR '','' = [''/a'', ''/a'']"
    by simp
  show ?thesis
    unfolding s by (simp add: startup0_def Let_def wg_Add_def mux_Handle_def)
qed

text \<open>
  C8. \<^verbatim>\<open>main\<close> ends with status 2 when the command line does not parse (\<^verbatim>\<open>usage\<close>).
  Once the handlers are registered, it ends with status 0 when \<^verbatim>\<open>ListenAndServe\<close> returns
  \<^verbatim>\<open>ErrServerClosed\<close>, which is what it returns after \<^verbatim>\<open>Shutdown\<close>, and with status 1, the
  error logged last, when it returns any other error.
\<close>

theorem main_exit_status:
  "fst (main None getenv err) = Exit 2 \<and>
   (fst (registerHandlers (Split (eventHookPaths (envOverrides getenv c)) CHR '','') startup0) = None
      \<longrightarrow>
      fst (main (Some c) getenv (Some ErrServerClosed)) = Exit 0 \<and>
      fst (main (Some c) getenv (Some (OtherError e))) = Exit 1 \<and>
      snd (main (Some c) getenv (Some (OtherError e))) =
        snd (main (Some c) getenv (Some ErrServerClosed)) @
        [(LevelError, ''unable to start server'', [(''err'', e)])])"
  by (simp add: main_def usage_def Let_def split: prod.split)

theorem main_exit_status_witness:
  "fst (registerHandlers (Split (eventHookPaths (envOverrides (\<lambda>v. []) flagDefaults)) CHR '','')
     startup0) = None \<and>
   fst (main None (\<lambda>v. []) None) = Exit 2 \<and>
   fst (main (Some flagDefaults) (\<lambda>v. []) (Some ErrServerClosed)) = Exit 0 \<and>
   fst (main (Some flagDefaults) (\<lambda>v. [])
     (Some (OtherError ''listen tcp :9000: bind: address already in use''))) = Exit 1"
proof -
  have c: "eventHookPaths (envOverrides (\<lambda>v. []) flagDefaults) = ''/''"
    by (simp add: envOverrides_def flagDefaults_def)
  have h: "fst (registerHandlers
      (Split (eventHookPaths (envOverrides (\<lambda>v. []) flagDefaults)) CHR '','') startup0) = None"
    unfolding c by (simp add: startup0_def Let_def wg_Add_def mux_Handle_def)
  from main_exit_status [of "\<lambda>v. []" None flagDefaults
      "''listen tcp :9000: bind: address already in use''"] h
  show ?thesis by simp
qed

section \<open>Properties of the shutdown coordinator\<close>

lemma shutdowns_shutdownServer: "shutdowns (shutdownServer err c) = shutdowns c @ [30 * Second]"
  by (simp add: shutdownServer_def)

lemma shutdowns_iteration:
  "iteration t err c = Some c' \<Longrightarrow> shutdowns c' = shutdowns c @ [30 * Second]"
  by (cases t) (auto simp: shutdowns_shutdownServer split: if_splits)

lemma gracefulShutdown_shutdowns:
  "gracefulShutdown es c = Some c' \<Longrightarrow>
   shutdowns c' = shutdowns c @ replicate (length (filter is_Select es)) (30 * Second)"
proof (induction es arbitrary: c)
  case Nil
  then show ?case by simp
next
  case (Cons e es)
  show ?case
  proof (cases e)
    case Notify
    with Cons.IH [of "c\<lparr>stop := min 1 (stop c + 1)\<rparr>"] Cons.prems show ?thesis by simp
  next
    case CloseDone
    with Cons.IH [of "c\<lparr>done_closed := True\<rparr>"] Cons.prems show ?thesis by simp
  next
    case CtxDone
    with Cons.IH [of "c\<lparr>ctx_done := True\<rparr>"] Cons.prems show ?thesis by simp
  next
    case (Select t err)
    with Cons.prems obtain c1 where c1: "iteration t err c = Some c1"
      and rest: "gracefulShutdown es c1 = Some c'"
      by (auto split: option.splits)
    from Cons.IH [OF rest] shutdowns_iteration [OF c1] Select show ?thesis
      by (simp add: replicate_app_Cons_same)
  qed
qed

text \<open>
  A trigger that is ready is never passed over: the \<^verbatim>\<open>select\<close> can take its case in any
  state of the loop, whatever the loop has done before.
\<close>

lemma iteration_ready:
  "(0 < stop c \<longrightarrow> iteration OperatorSignal err c \<noteq> None) \<and>
   (done_closed c \<longrightarrow> iteration AllVerified err c \<noteq> None) \<and>
   (ctx_done c \<longrightarrow> iteration Deadline err c \<noteq> None)"
  by simp

lemma gracefulShutdown_done_repeats:
  assumes "done_closed c"
  shows "\<exists>c'. gracefulShutdown (replicate n (Select AllVerified err)) c = Some c' \<and>
           done_closed c' \<and> shutdowns c' = shutdowns c @ replicate n (30 * Second)"
  using assms
proof (induction n arbitrary: c)
  case 0
  then show ?case by simp
next
  case (Suc n)
  let ?c1 = "shutdownServer err
      (c\<lparr>clog := clog c @ [(LevelInfo, ''all event hooks are verified'', [])]\<rparr>)"
  have closed: "done_closed ?c1"
    using Suc.prems by (simp add: shutdownServer_def)
  have calls: "shutdowns ?c1 = shutdowns c @ [30 * Second]"
    by (simp add: shutdownServer_def)
  from Suc.IH [OF closed] obtain c' where
    "gracefulShutdown (replicate n (Select AllVerified err)) ?c1 = Some c'"
    "done_closed c'" "shutdowns c' = shutdowns ?c1 @ replicate n (30 * Second)"
    by blast
  then show ?case
    using Suc.prems calls by (simp add: replicate_app_Cons_same)
qed

lemma gracefulShutdown_ctx_repeats:
  assumes "ctx_done c"
  shows "\<exists>c'. gracefulShutdown (replicate n (Select Deadline err)) c = Some c' \<and>
           ctx_done c' \<and> shutdowns c' = shutdowns c @ replicate n (30 * Second)"
  using assms
proof (induction n arbitrary: c)
  case 0
  then show ?case by simp
next
  case (Suc n)
  let ?c1 = "shutdownServer err (c\<lparr>clog := clog c @ [(LevelInfo, ''timed out'', [])]\<rparr>)"
  have closed: "ctx_done ?c1"
    using Suc.prems by (simp add: shutdownServer_def)
  have calls: "shutdowns ?c1 = shutdowns c @ [30 * Second]"
    by (simp add: shutdownServer_def)
  from Suc.IH [OF closed] obtain c' where
    "gracefulShutdown (replicate n (Select Deadline err)) ?c1 = Some c'"
    "ctx_done c'" "shutdowns c' = shutdowns ?c1 @ replicate n (30 * Second)"
    by blast
  then show ?case
    using Suc.prems calls by (simp add: replicate_app_Cons_same)
qed

lemma gracefulShutdown_signal_repeats:
  assumes "stop c = 0"
  shows "\<exists>c'. gracefulShutdown (concat (replicate n [Notify, Select OperatorSignal err])) c = Some c' \<and>
           stop c' = 0 \<and> shutdowns c' = shutdowns c @ replicate n (30 * Second)"
  using assms
proof (induction n arbitrary: c)
  case 0
  then show ?case by simp
next
  case (Suc n)
  let ?c1 = "shutdownServer err
      (c\<lparr>stop := 0, clog := clog c @ [(LevelInfo, ''received stop signal'', [])]\<rparr>)"
  have empty: "stop ?c1 = 0"
    by (simp add: shutdownServer_def)
  have calls: "shutdowns ?c1 = shutdowns c @ [30 * Second]"
    by (simp add: shutdownServer_def)
  from Suc.IH [OF empty] obtain c' where
    "gracefulShutdown (concat (replicate n [Notify, Select OperatorSignal err])) ?c1 = Some c'"
    "stop c' = 0" "shutdowns c' = shutdowns ?c1 @ replicate n (30 * Second)"
    by blast
  then show ?case
    using Suc.prems calls by (simp add: replicate_app_Cons_same)
qed

text \<open>
  C3. The claim asks for one graceful stop in the life of the process, later triggers
  being ignored. The loop does not do that: it has no \<^verbatim>\<open>return\<close>, and every iteration
  that finds a trigger ready calls \<^verbatim>\<open>shutdownServer\<close> again. Once \<^verbatim>\<open>done\<close> is closed, or once
  the context is done, \<open>n\<close> iterations are \<open>n\<close> calls of \<^verbatim>\<open>server.Shutdown\<close>, for every \<open>n\<close>;
  and so are \<open>n\<close> signals, each received by the next iteration.
\<close>

theorem gracefulShutdown_stops_at_every_trigger:
  "map_option shutdowns
     (gracefulShutdown (CloseDone # replicate n (Select AllVerified None)) coordinator0) =
     Some (replicate n (30 * 1000000000)) \<and>
   map_option shutdowns
     (gracefulShutdown (CtxDone # replicate n (Select Deadline None)) coordinator0) =
     Some (replicate n (30 * 1000000000)) \<and>
   map_option shutdowns
     (gracefulShutdown (concat (replicate n [Notify, Select OperatorSignal None])) coordinator0) =
     Some (replicate n (30 * 1000000000))"
proof -
  have "done_closed (coordinator0\<lparr>done_closed := True\<rparr>)"
    by simp
  from gracefulShutdown_done_repeats [OF this, of n None]
  have a: "map_option shutdowns
      (gracefulShutdown (CloseDone # replicate n (Select AllVerified None)) coordinator0) =
      Some (replicate n (30 * 1000000000))"
    by (auto simp: coordinator0_def Second_def)
  have "ctx_done (coordinator0\<lparr>ctx_done := True\<rparr>)"
    by simp
  from gracefulShutdown_ctx_repeats [OF this, of n None]
  have b: "map_option shutdowns
      (gracefulShutdown (CtxDone # replicate n (Select Deadline None)) coordinator0) =
      Some (replicate n (30 * 1000000000))"
    by (auto simp: coordinator0_def Second_def)
  have "stop coordinator0 = 0"
    by (simp add: coordinator0_def)
  from gracefulShutdown_signal_repeats [OF this, of n None]
  have c: "map_option shutdowns
      (gracefulShutdown (concat (replicate n [Notify, Select OperatorSignal None])) coordinator0) =
      Some (replicate n (30 * 1000000000))"
    by (auto simp: coordinator0_def Second_def)
  from a b c show ?thesis by simp
qed

text \<open>
  Two iterations, two graceful stops: on the closed \<^verbatim>\<open>done\<close>, on the finished context, on
  two signals, and on a signal that arrives after \<^verbatim>\<open>done\<close> was closed and served.
\<close>

theorem gracefulShutdown_stops_twice:
  "map_option shutdowns
     (gracefulShutdown [CloseDone, Select AllVerified None, Select AllVerified None]
        coordinator0) = Some [30000000000, 30000000000] \<and>
   map_option shutdowns
     (gracefulShutdown [CtxDone, Select Deadline None, Select Deadline None]
        coordinator0) = Some [30000000000, 30000000000] \<and>
   map_option shutdowns
     (gracefulShutdown [Notify, Select OperatorSignal None, Notify, Select OperatorSignal None]
        coordinator0) = Some [30000000000, 30000000000] \<and>
   map_option shutdowns
     (gracefulShutdown [CloseDone, Select AllVerified None, Notify, Select OperatorSignal None]
        coordinator0) = Some [30000000000, 30000000000]"
proof -
  have two: "replicate 2 x = [x, x]" for x :: 'a
    by (simp add: numeral_2_eq_2)
  have mixed: "map_option shutdowns
     (gracefulShutdown [CloseDone, Select AllVerified None, Notify, Select OperatorSignal None]
        coordinator0) = Some [30000000000, 30000000000]"
    by (simp add: coordinator0_def shutdownServer_def Second_def)
  from gracefulShutdown_stops_at_every_trigger [of 2] mixed
  show ?thesis
    by (simp add: two)
qed

text \<open>
  What \<^verbatim>\<open>shutdownServer\<close> itself does: it gives \<^verbatim>\<open>server.Shutdown\<close> a context that times out
  after 30 seconds, and when \<^verbatim>\<open>Shutdown\<close> fails the only difference is one more log entry;
  the iteration of the loop that called it ends as it does after a clean stop. How long
  the stop really waits for the requests in flight is not decided here (C9): \<^verbatim>\<open>main\<close>
  returns as soon as \<^verbatim>\<open>ListenAndServe\<close> returns \<^verbatim>\<open>ErrServerClosed\<close>, which it does the moment
  \<^verbatim>\<open>Shutdown\<close> is called and not when \<^verbatim>\<open>Shutdown\<close> returns, and a Go program ends when
  \<^verbatim>\<open>main\<close> returns.
\<close>

lemma shutdownServer_failure_only_logged:
  "shutdowns (shutdownServer err c) = shutdowns c @ [30 * 1000000000] \<and>
   shutdownServer (Some e) c =
     (shutdownServer None c)
       \<lparr>clog := clog (shutdownServer None c) @
          [(LevelError, ''failed to shutdown http server'', [(''err'', e)])]\<rparr> \<and>
   iteration t (Some e) c =
     map_option
       (\<lambda>c'. c'\<lparr>clog := clog c' @
          [(LevelError, ''failed to shutdown http server'', [(''err'', e)])]\<rparr>)
       (iteration t None c)"
  by (cases t) (simp_all add: shutdownServer_def Second_def)

section \<open>The tracker counts the handlers that have not fired\<close>

text \<open>
  Not a claim of the specification, but what makes the tracker mean "all verified": once
  the handlers are registered, the counter is the number of handlers whose latch has not
  fired, in every run. So \<^verbatim>\<open>wg.Done\<close> never panics, and \<^verbatim>\<open>done\<close> is closed only when every
  registered path has been verified.
\<close>

lemma count_list_fire:
  "i < length xs \<Longrightarrow> \<not> xs ! i \<Longrightarrow>
   int (count_list (xs[i := True]) False) = int (count_list xs False) - 1"
proof (induction xs arbitrary: i)
  case Nil
  then show ?case by simp
next
  case (Cons x xs)
  then show ?case by (cases i) auto
qed

lemma count_list_pending: "i < length xs \<Longrightarrow> \<not> xs ! i \<Longrightarrow> 0 < count_list xs False"
  by (metis count_list_0_iff gr0I nth_mem)

lemma tracker_step:
  assumes "sys_wg s = int (count_list (sys_onces s) False)"
  shows "sys_wg (step ewd e s) = int (count_list (sys_onces (step ewd e s)) False)"
proof (cases e)
  case Aggregator
  with assms show ?thesis by simp
next
  case (Serve i r werr)
  show ?thesis
  proof (cases "i < length (sys_onces s) \<and> \<not> sys_onces s ! i \<and>
      once_after (verificationHandler ewd (sys_onces s ! i) (sys_wg s) r werr)")
    case True
    from True have ni: "sys_onces s ! i = False"
      by simp
    from True have o: "once_after (verificationHandler ewd False (sys_wg s) r werr)"
      by (simp add: ni)
    then have w: "wg_after (verificationHandler ewd False (sys_wg s) r werr) = sys_wg s - 1"
      by (auto simp: wg_after_verificationHandler once_after_verificationHandler)
    from True have "step ewd (Serve i r werr) s =
        s\<lparr>sys_wg := sys_wg s - 1, sys_onces := (sys_onces s)[i := True]\<rparr>"
      by (simp add: Let_def ni o w)
    then show ?thesis
      using assms Serve True count_list_fire [of i "sys_onces s"]
      by (simp del: step.simps)
  next
    case False
    then have "step ewd (Serve i r werr) s = s"
      by (auto simp: Let_def wg_after_verificationHandler once_after_verificationHandler
          list_update_same_conv)
    with assms Serve show ?thesis by simp
  qed
qed

lemma no_panic_step:
  assumes "sys_wg s = int (count_list (sys_onces s) False)" and "i < length (sys_onces s)"
  shows "panicked (verificationHandler ewd (sys_onces s ! i) (sys_wg s) r werr) = None"
proof (cases "sys_onces s ! i")
  case True
  then show ?thesis
    by (simp add: verificationHandler_def Let_def split: option.split)
next
  case False
  with assms count_list_pending [of i "sys_onces s"] have "0 < sys_wg s" by simp
  then show ?thesis
    by (simp add: verificationHandler_def Let_def wg_Done_def wg_Add_def split: option.split)
qed


lemma tracker_run:
  assumes "sys_wg s = int (count_list (sys_onces s) False)"
  shows "sys_wg (run ewd es s) = int (count_list (sys_onces (run ewd es s)) False)"
  using assms
proof (induction es arbitrary: s)
  case Nil
  then show ?case by simp
next
  case (Cons e es)
  from Cons.IH [OF tracker_step [OF Cons.prems, of ewd e]] show ?case
    by (simp del: step.simps)
qed

lemma done_closed_step:
  assumes "sys_wg s = int (count_list (sys_onces s) False)"
    and "0 < done_closes s \<longrightarrow> sys_wg s = 0"
  shows "0 < done_closes (step ewd e s) \<longrightarrow> sys_wg (step ewd e s) = 0"
proof (cases e)
  case Aggregator
  with assms show ?thesis by simp
next
  case (Serve i r werr)
  have "0 \<le> sys_wg (step ewd e s)"
    using tracker_step [OF assms(1), of ewd e] by simp
  moreover have "sys_wg (step ewd e s) \<le> sys_wg s"
    using Serve by (simp add: Let_def wg_after_verificationHandler)
  moreover have "done_closes (step ewd e s) = done_closes s"
    using Serve by (simp add: Let_def)
  ultimately show ?thesis
    using assms(2) by auto
qed

lemma all_verified_when_done_closed:
  assumes "sys_wg s = int (count_list (sys_onces s) False)"
    and "0 < done_closes s \<longrightarrow> sys_wg s = 0"
    and "0 < done_closes (run ewd es s)"
  shows "False \<notin> set (sys_onces (run ewd es s))"
proof -
  have "0 < done_closes (run ewd es s) \<longrightarrow> sys_wg (run ewd es s) = 0"
    using assms(1,2)
  proof (induction es arbitrary: s)
    case Nil
    then show ?case by simp
  next
    case (Cons e es)
    from Cons.IH [OF tracker_step [OF Cons.prems(1), of ewd e]
        done_closed_step [OF Cons.prems, of ewd e]]
    show ?case by (simp del: step.simps)
  qed
  with assms(3) tracker_run [OF assms(1), of ewd es]
  have "count_list (sys_onces (run ewd es s)) False = 0"
    by simp
  then show ?thesis
    by (simp add: count_list_0_iff)
qed

lemma serving_tracker:
  assumes "fst (registerHandlers ps startup0) = None"
  shows "sys_wg (serving (snd (registerHandlers ps startup0))) =
     int (count_list (sys_onces (serving (snd (registerHandlers ps startup0)))) False)"
proof -
  have ok: "distinct ps \<and> [] \<notin> set ps"
    using assms registerHandlers_panics [of startup0 ps] by (auto simp: startup0_def)
  have "count_list (replicate n False) False = n" for n
    by (induction n) simp_all
  with ok registerHandlers_ok [of startup0 ps] show ?thesis
    by (simp add: serving_def startup0_def)
qed

end
